theory Spec2Isabelle
  imports Complex_Main
begin

section \<open>FASTSIM-PRO v4: the scheduler of \<open>file.user.js\<close>\<close>

text \<open>
  A shallow embedding of the userscript's scheduler core: the configuration \<open>CONF\<close>, the
  singleton \<open>state\<close>, the batch drainer \<open>drainTaskBatch\<close>, the per-video procedure
  \<open>processOneHybrid\<close>, the discovery entry point \<open>enqueueNewVideos\<close>, the balancer
  \<open>adaptCoreParameters\<close> and the control surface \<open>stopAll\<close> / \<open>status\<close>.

  JavaScript numbers are idealised as rationals (type \<open>rat\<close>): every comparison of the
  source is then exact, and sums, quotients and products are taken without the rounding of
  IEEE doubles. \<open>NaN\<close> and the infinities, which the source tests with \<open>isFinite\<close> on a
  video's duration, are the value \<open>None\<close> of an option type. Counters that the source only
  ever increments or decrements by one are integers.
\<close>

subsection \<open>Configuration (\<open>CONF\<close>, lines 11-28)\<close>

definition concurrencyMin :: int where
  "concurrencyMin = 1"

text \<open>
  \<open>Math.max(2, navigator.hardwareConcurrency ? Math.min(8, navigator.hardwareConcurrency) : 4)\<close>.
  The host's \<open>navigator.hardwareConcurrency\<close> is a parameter: \<open>None\<close> when the property
  is undefined; \<open>0\<close> is falsy like \<open>undefined\<close>.
\<close>

definition concurrencyMax :: "nat option \<Rightarrow> int" where
  "concurrencyMax hw =
     max 2 (case hw of None \<Rightarrow> 4 | Some n \<Rightarrow> if n \<noteq> 0 then min 8 (int n) else 4)"

definition concurrencyInit :: int where
  "concurrencyInit = 3"

definition batchDelayMin :: rat where
  "batchDelayMin = 20"

definition batchDelayMax :: rat where
  "batchDelayMax = 600"

definition batchDelayInit :: rat where
  "batchDelayInit = 200"

definition preferInstantReadyState :: nat where
  "preferInstantReadyState = 2"

definition skipStepBase :: rat where
  "skipStepBase = 10 ^ 12"

definition skipStepMax :: rat where
  "skipStepMax = 10 ^ 18"

definition adaptWindowMs :: rat where
  "adaptWindowMs = 2000"

definition adaptTargetWorkMs :: rat where
  "adaptTargetWorkMs = 12"

text \<open>\<open>Number.MAX_VALUE\<close>, the largest finite double.\<close>

definition MAX_VALUE :: rat where
  "MAX_VALUE = 2 ^ 1024 - 2 ^ 971"

text \<open>JavaScript's \<open>a || b\<close> on two numbers: \<open>a\<close> unless it is falsy, that is, zero.\<close>

definition or_else :: "rat \<Rightarrow> rat \<Rightarrow> rat" where
  "or_else a b = (if a \<noteq> 0 then a else b)"

subsection \<open>Data: videos, samples, pending continuations, the singleton state\<close>

type_synonym vid = nat

text \<open>
  A video element, with the properties the scheduler reads and writes. \<open>readyState\<close> is
  \<open>None\<close> when \<open>typeof video.readyState\<close> is not \<open>"number"\<close>; \<open>duration\<close> is \<open>None\<close>
  when \<open>isFinite(video.duration)\<close> is false (\<open>NaN\<close> before metadata is loaded, \<open>Infinity\<close>
  for a live stream). \<open>fsim_done\<close> is the expando \<open>__fsim_done\<close>. \<open>mutedThrows\<close> and
  \<open>pauseThrows\<close> say whether writing \<open>muted\<close> and calling \<open>pause()\<close> raise;
  \<open>currentTimeThrows x\<close> says whether writing the position \<open>x\<close> to \<open>currentTime\<close> raises
  (a media element may refuse a position outside of what it can seek to).
\<close>

record video =
  readyState :: "nat option"
  duration :: "rat option"
  currentTime :: rat
  muted :: bool
  paused :: bool
  fsim_done :: bool
  mutedThrows :: bool
  pauseThrows :: bool
  currentTimeThrows :: "rat \<Rightarrow> bool"

text \<open>An entry \<open>{ t: Date.now(), ms: ... }\<close> of \<open>state.lastWorkSamples\<close>.\<close>

record sample =
  t :: rat
  ms :: rat

text \<open>
  A call of \<open>processOneHybrid\<close> suspended at \<open>await new Promise(res => setTimeout(res, 0))\<close>
  (line 223): the locals that are live across the await.
\<close>

record task =
  t_video :: vid
  t_step :: rat
  t_start :: rat

text \<open>
  Calls that leave the scheduler: \<open>processOneHybrid(v)\<close> being invoked, \<open>dispatchEvent\<close>,
  \<open>cleanupVideoResources(v)\<close> and \<open>showToast(`Done: n`)\<close>.
\<close>

datatype effect =
    Launch vid
  | Dispatch vid string
  | Cleanup vid
  | Toast int

text \<open>
  Jobs of the host's microtask queue: the drain queued by \<open>scheduleTaskDrain\<close>, and the
  \<open>.finally\<close> callback of line 151, queued when a \<open>processOneHybrid\<close> promise settles.
\<close>

datatype microtask = DrainJob | SettleJob

text \<open>
  The object \<open>state\<close> of lines 31-47 (\<open>apiKey\<close>, never read, is left out; \<open>observer\<close> and
  \<open>healTimer\<close> are reduced to "installed or not"), followed by what the host holds for
  the script: the video elements, the suspended \<open>processOneHybrid\<close> calls, the microtask
  queue, the record of outgoing calls, and the clock that \<open>performance.now()\<close> and
  \<open>Date.now()\<close> read.
\<close>

record state =
  running :: bool
  concurrency :: int
  batchDelay :: rat
  skipStep :: rat
  queue :: "vid list"
  processingCount :: int
  doneCount :: int
  seenCount :: int
  readySuccess :: int
  readyFailure :: int
  lastWorkSamples :: "sample list"
  observer :: bool
  healTimer :: bool
  taskScheduled :: bool
  videos :: "vid \<Rightarrow> video"
  tasks :: "task list"
  microtasks :: "microtask list"
  effects :: "effect list"
  clock :: rat

definition initialState :: "(vid \<Rightarrow> video) \<Rightarrow> state" where
  "initialState vs =
     \<lparr> running = True, concurrency = concurrencyInit, batchDelay = batchDelayInit,
       skipStep = skipStepBase, queue = [], processingCount = 0, doneCount = 0,
       seenCount = 0, readySuccess = 0, readyFailure = 0, lastWorkSamples = [],
       observer = False, healTimer = False, taskScheduled = False,
       videos = vs, tasks = [], microtasks = [], effects = [], clock = 0 \<rparr>"

subsection \<open>The Dynamic Core Balancer (\<open>adaptCoreParameters\<close>, lines 262-283)\<close>

text \<open>
  Lines 265-266:
  \<^verbatim>\<open>const arr = state.lastWorkSamples.map(s => s.ms).filter(Boolean);\<close>
  \<^verbatim>\<open>const avg = arr.length ? (arr.reduce((a,b)=>a+b,0)/arr.length) : 0;\<close>
  \<open>filter(Boolean)\<close> keeps the truthy numbers, that is, the nonzero ones.
\<close>

definition adapt_avg :: "sample list \<Rightarrow> rat" where
  "adapt_avg samples =
     (let arr = filter (\<lambda>x. x \<noteq> 0) (map ms samples)
      in if length arr \<noteq> 0 then foldl (\<lambda>a b. a + b) 0 arr / of_nat (length arr) else 0)"

text \<open>\<open>(state.readySuccess + 1) / (state.readySuccess + state.readyFailure + 2)\<close>.\<close>

definition readyRate :: "state \<Rightarrow> rat" where
  "readyRate s = (of_int (readySuccess s) + 1) / (of_int (readySuccess s + readyFailure s) + 2)"

definition adaptCoreParameters :: "nat option \<Rightarrow> state \<Rightarrow> state" where
  "adaptCoreParameters hw s =
     (let avg = adapt_avg (lastWorkSamples s);
          c1 = (if avg < adaptTargetWorkMs then min (concurrencyMax hw) (concurrency s + 1)
                else if avg > adaptTargetWorkMs * (18 / 10)
                then max concurrencyMin (concurrency s - 1)
                else concurrency s);
          sk = (if readyRate s > 6 / 10 then max (skipStepBase / 10) (skipStepBase / 100)
                else skipStepBase);
          bd = (if avg > adaptTargetWorkMs * 2
                then min batchDelayMax (or_else (batchDelay s) batchDelayInit * (15 / 10))
                else max batchDelayMin (or_else (batchDelay s) batchDelayInit * (9 / 10)))
      in s\<lparr> concurrency := max concurrencyMin (min (concurrencyMax hw) (round (of_int c1 :: rat))),
            skipStep := sk, batchDelay := bd \<rparr>)"

text \<open>
  The only timer of the discovery feed (line 352):
  \<^verbatim>\<open>setInterval(() => { ... enqueueNewVideos(); }, Math.max(200, CONF.batchDelayInit))\<close>.
  Its interval is evaluated once, at boot, from the configuration.
\<close>

definition periodicEnqInterval :: rat where
  "periodicEnqInterval = max 200 batchDelayInit"

subsection \<open>The control surface: \<open>status\<close> (lines 319-329)\<close>

datatype jsvalue = JSNumber rat | JSString string

record snapshot =
  st_running :: bool
  st_concurrency :: int
  st_queueLength :: nat
  st_processing :: int
  st_done :: int
  st_seen :: int
  st_avgWorkMs :: jsvalue

definition digit_char :: "nat \<Rightarrow> char" where
  "digit_char d = ''0123456789'' ! (d mod 10)"

fun digits :: "nat \<Rightarrow> string" where
  "digits n = (if n < 10 then [digit_char n] else digits (n div 10) @ [digit_char (n mod 10)])"

text \<open>
  \<open>Number.prototype.toFixed(2)\<close> for a number of magnitude below \<open>10^21\<close> (above, the
  method answers in exponent notation; no elapsed time comes near): the integer \<open>n\<close> with
  \<open>n / 100\<close> nearest to the magnitude, the larger one on a tie, written with a decimal
  point before its last two digits, after a minus sign for a negative number.
\<close>

definition toFixed2 :: "rat \<Rightarrow> string" where
  "toFixed2 x =
     (let n = nat \<lfloor>\<bar>x\<bar> * 100 + 1 / 2\<rfloor>
      in (if x < 0 then ''-'' else '''') @ digits (n div 100) @ ''.''
           @ [digit_char (n div 10), digit_char n])"

text \<open>
  \<open>status()\<close> builds an object from reads of \<open>state\<close>. It is written in state-passing style
  like every other operation: the second component is the state the call leaves behind.
\<close>

definition status :: "state \<Rightarrow> snapshot \<times> state" where
  "status s =
     (\<lparr> st_running = running s,
        st_concurrency = concurrency s,
        st_queueLength = length (queue s),
        st_processing = processingCount s,
        st_done = doneCount s,
        st_seen = seenCount s,
        st_avgWorkMs =
          (if length (lastWorkSamples s) \<noteq> 0
           then JSString (toFixed2 (foldl (\<lambda>a b. a + ms b) 0 (lastWorkSamples s)
                                     / of_nat (length (lastWorkSamples s))))
           else JSNumber 0) \<rparr>, s)"

subsection \<open>Processing one video (\<open>processOneHybrid\<close>, lines 173-243)\<close>

text \<open>
  The common tail of both strategies (lines 227-230), the \<open>finally\<close> block of lines
  236-241, and the settling of the returned promise, which queues the \<open>.finally\<close> callback
  of line 151 as a microtask.
\<close>

definition markDone :: "vid \<Rightarrow> rat \<Rightarrow> state \<Rightarrow> state" where
  "markDone v start s =
     (let took = max 0 (of_int (round (clock s - start)));
          cutoff = clock s - adaptWindowMs
      in s\<lparr> videos := (videos s)(v := (videos s v)\<lparr> fsim_done := True \<rparr>),
            doneCount := doneCount s + 1,
            effects := effects s @ [Cleanup v, Toast (doneCount s + 1)],
            lastWorkSamples :=
              filter (\<lambda>x. t x \<ge> cutoff) (lastWorkSamples s @ [\<lparr> t = clock s, ms = took \<rparr>]),
            microtasks := microtasks s @ [SettleJob] \<rparr>)"

text \<open>
  The instant strategy (lines 185-199). The writes to \<open>muted\<close> and the call of \<open>pause()\<close>
  sit in their own \<open>try { } catch(e){}\<close>; the write to \<open>currentTime\<close> is guarded by the
  \<open>try\<close> whose \<open>catch\<close> counts \<open>readyFailure\<close>.
\<close>

definition instantJump :: "vid \<Rightarrow> state \<Rightarrow> state" where
  "instantJump v s =
     (let v0 = videos s v;
          v1 = (if mutedThrows v0 then v0 else v0\<lparr> muted := True \<rparr>);
          v2 = (if pauseThrows v1 then v1 else v1\<lparr> paused := True \<rparr>);
          target = (case duration v2 of
                      Some d \<Rightarrow> if d > 0 then max 0 (d - 1 / 1000) else MAX_VALUE
                    | None \<Rightarrow> MAX_VALUE)
      in if currentTimeThrows v2 target
         then s\<lparr> videos := (videos s)(v := v2), readyFailure := readyFailure s + 1 \<rparr>
         else s\<lparr> videos := (videos s)(v := v2\<lparr> currentTime := target \<rparr>),
                 effects := effects s
                   @ map (Dispatch v) [''timeupdate'', ''seeked'', ''pause'', ''ended''],
                 readySuccess := readySuccess s + 1 \<rparr>)"

text \<open>
  One pass of \<open>while (!done && state.running) { ... }\<close> (lines 206-224), from the loop test
  to the \<open>await\<close> or to the loop's exit. The boolean is \<open>True\<close> when the pass reached the
  \<open>await\<close>, \<open>False\<close> when the loop was left (its test failed, \<open>break\<close> after the final
  seek, or \<open>break\<close> in the \<open>catch\<close>).
\<close>

definition loopPass :: "task \<Rightarrow> state \<Rightarrow> bool \<times> state" where
  "loopPass tk s =
     (if \<not> running s then (False, s)
      else
        let v = t_video tk;
            vd = videos s v;
            cur = or_else (currentTime vd) 0;
            seek = (\<lambda>x. s\<lparr> videos := (videos s)(v := vd\<lparr> currentTime := x \<rparr>) \<rparr>)
        in case (case duration vd of None \<Rightarrow> None | Some d \<Rightarrow> if d \<le> 0 then None else Some d) of
             None \<Rightarrow>
               if currentTimeThrows vd (cur + t_step tk) then (False, s)
               else (True, seek (cur + t_step tk))
           | Some d \<Rightarrow>
               let remain = d - cur
               in if remain \<le> 1 / 2
                  then if currentTimeThrows vd (max 0 (d - 1 / 1000)) then (False, s)
                       else (False, (seek (max 0 (d - 1 / 1000)))
                                      \<lparr> effects := effects s @ [Dispatch v ''ended''] \<rparr>)
                  else if currentTimeThrows vd (min d (cur + min (t_step tk) remain))
                       then (False, s)
                       else (True, seek (min d (cur + min (t_step tk) remain))))"

text \<open>
  A suspended call continues when its timer fires: one more pass, then either the next
  suspension or the common tail.
\<close>

definition resumeTask :: "task \<Rightarrow> state \<Rightarrow> state" where
  "resumeTask tk s =
     (if fst (loopPass tk s) then (snd (loopPass tk s))\<lparr> tasks := tasks (snd (loopPass tk s)) @ [tk] \<rparr>
      else markDone (t_video tk) (t_start tk) (snd (loopPass tk s)))"

text \<open>
  \<open>Math.min(CONF.skipStepBase || CONF.skipStepBase, state.skipStep || CONF.skipStepBase,
  CONF.skipStepMax)\<close> (line 203).
\<close>

definition stepOf :: "state \<Rightarrow> rat" where
  "stepOf s = min (or_else skipStepBase skipStepBase)
                  (min (or_else (skipStep s) skipStepBase) skipStepMax)"

definition isReady :: "video \<Rightarrow> bool" where
  "isReady vd = (case readyState vd of Some r \<Rightarrow> r \<ge> preferInstantReadyState | None \<Rightarrow> True)"

definition preferInstant :: "state \<Rightarrow> vid \<Rightarrow> bool" where
  "preferInstant s v = (isReady (videos s v) \<and> readyRate s > 4 / 10)"

text \<open>
  The call \<open>processOneHybrid(video)\<close>: the synchronous part, up to the first \<open>await\<close> or to
  the end of the function.
\<close>

definition processOneHybrid :: "vid \<Rightarrow> state \<Rightarrow> state" where
  "processOneHybrid v s0 =
     (let s = s0\<lparr> effects := effects s0 @ [Launch v] \<rparr>;
          start = clock s
      in if isReady (videos s v) \<and> preferInstant s v
         then markDone v start (instantJump v s)
         else resumeTask \<lparr> t_video = v, t_step = stepOf s, t_start = start \<rparr> s)"



subsection \<open>The batch drainer (lines 130-170)\<close>

definition scheduleTaskDrain :: "state \<Rightarrow> state" where
  "scheduleTaskDrain s =
     (if taskScheduled s then s
      else s\<lparr> taskScheduled := True, microtasks := microtasks s @ [DrainJob] \<rparr>)"

text \<open>
  The loop of lines 143-156. Its first argument is \<open>state.queue\<close> as the loop test reads it;
  \<open>shift()\<close> removes the head both there and in the state. \<open>processed\<close> is the local counter.
  A video element is never falsy, so the \<open>break\<close> of line 145 has no branch.
\<close>

fun drainLoop :: "vid list \<Rightarrow> int \<Rightarrow> state \<Rightarrow> state" where
  "drainLoop [] processed s = s"
| "drainLoop (v # q) processed s =
     (if processingCount s < concurrency s \<and> processed < concurrency s
      then let s1 = s\<lparr> queue := q \<rparr>
           in if fsim_done (videos s1 v) then drainLoop q processed s1
              else drainLoop q (processed + 1)
                     (processOneHybrid v (s1\<lparr> processingCount := processingCount s1 + 1 \<rparr>))
      else s)"

text \<open>
  \<open>drainTaskBatch\<close>. \<open>work\<close> is what the two reads of \<open>performance.now()\<close> differ by; the
  calls launched inside the loop read the clock at \<open>t0\<close>.
\<close>

definition drainTaskBatch :: "nat option \<Rightarrow> rat \<Rightarrow> state \<Rightarrow> state" where
  "drainTaskBatch hw work s =
     (let t0 = clock s;
          s1 = drainLoop (queue s) 0 s;
          t1 = t0 + work;
          s2 = s1\<lparr> taskScheduled := False, clock := t1 \<rparr>;
          s3 = s2\<lparr> lastWorkSamples :=
                     filter (\<lambda>x. t x \<ge> t1 - adaptWindowMs)
                       (lastWorkSamples s2 @ [\<lparr> t = t1, ms = max 0 (t1 - t0) \<rparr>]) \<rparr>
      in adaptCoreParameters hw s3)"

text \<open>The \<open>.finally\<close> callback of lines 151-155.\<close>

definition settled :: "state \<Rightarrow> state" where
  "settled s =
     (let s1 = s\<lparr> processingCount := max 0 (processingCount s - 1) \<rparr>
      in if length (queue s1) > 0 then scheduleTaskDrain s1 else s1)"

subsection \<open>Discovery (\<open>enqueueNewVideos\<close>, lines 246-259) and \<open>stopAll\<close> (lines 311-318)\<close>

text \<open>The \<open>for\<close> loop of lines 249-254 over the list that \<open>findVideos(document)\<close> returned.\<close>

fun enqueueLoop :: "vid list \<Rightarrow> state \<Rightarrow> state" where
  "enqueueLoop [] s = s"
| "enqueueLoop (v # vs) s =
     (if fsim_done (videos s v) then enqueueLoop vs s
      else if v \<notin> set (queue s) then enqueueLoop vs (s\<lparr> queue := queue s @ [v] \<rparr>)
      else enqueueLoop vs s)"

definition enqueueNewVideos :: "vid list \<Rightarrow> state \<Rightarrow> state" where
  "enqueueNewVideos vids s =
     (let s1 = enqueueLoop vids s;
          s2 = s1\<lparr> seenCount :=
                     max (seenCount s1)
                       (int (length (queue s1)) + processingCount s1 + doneCount s1) \<rparr>
      in if length (queue s2) > 0 then scheduleTaskDrain s2 else s2)"

definition stopAll :: "state \<Rightarrow> state" where
  "stopAll s = s\<lparr> running := False, observer := False, healTimer := False, queue := [] \<rparr>"

subsection \<open>The host's event loop\<close>

text \<open>
  What the host can do next. A microtask runs as soon as the current job ends, before any
  timer callback: \<open>RunMicrotask work\<close> runs the oldest one (\<open>work\<close> is the time a drain
  takes). A discovery (the call at boot, the periodic poll of line 352, or the
  \<open>MutationObserver\<close> callback, which is a microtask of the host's own) arrives with the
  list \<open>findVideos\<close> returns, in which no element occurs twice. With the microtask queue
  empty the host may fire the timer of a suspended call, fire the periodic drain of line
  354, or take the operator's \<open>stop()\<close> or \<open>status()\<close>; time may pass at any moment.
  Discovery and the periodic drain are live only while \<open>state.running\<close>.
\<close>

datatype event =
    RunMicrotask rat
  | Discover "vid list"
  | TimerFires nat
  | PeriodicDrain
  | Stop
  | Status
  | Elapse rat

definition fire :: "nat option \<Rightarrow> event \<Rightarrow> state \<Rightarrow> state option" where
  "fire hw e s =
     (case e of
        RunMicrotask work \<Rightarrow>
          (case microtasks s of
             [] \<Rightarrow> None
           | DrainJob # js \<Rightarrow>
               if work \<ge> 0 then Some (drainTaskBatch hw work (s\<lparr> microtasks := js \<rparr>)) else None
           | SettleJob # js \<Rightarrow> Some (settled (s\<lparr> microtasks := js \<rparr>)))
      | Discover vids \<Rightarrow>
          if running s \<and> distinct vids then Some (enqueueNewVideos vids s) else None
      | TimerFires i \<Rightarrow>
          if microtasks s = [] \<and> i < length (tasks s)
          then Some (resumeTask (tasks s ! i)
                       (s\<lparr> tasks := take i (tasks s) @ drop (Suc i) (tasks s) \<rparr>))
          else None
      | PeriodicDrain \<Rightarrow>
          if microtasks s = [] \<and> running s
          then Some (if length (queue s) \<noteq> 0 then scheduleTaskDrain s else s) else None
      | Stop \<Rightarrow> if microtasks s = [] then Some (stopAll s) else None
      | Status \<Rightarrow> if microtasks s = [] then Some (snd (status s)) else None
      | Elapse dt \<Rightarrow> if dt \<ge> 0 then Some (s\<lparr> clock := clock s + dt \<rparr>) else None)"

fun run :: "nat option \<Rightarrow> event list \<Rightarrow> state \<Rightarrow> state option" where
  "run hw [] s = Some s"
| "run hw (e # es) s = (case fire hw e s of None \<Rightarrow> None | Some s' \<Rightarrow> run hw es s')"

subsection \<open>Reference notions of the specification, and sample inputs\<close>

text \<open>
  The arithmetic mean as the specification words it: "\<open>mean(remaining sample durations)\<close>,
  or 0 if empty".
\<close>

definition mean_of :: "rat list \<Rightarrow> rat" where
  "mean_of xs = (if xs = [] then 0 else sum_list xs / of_nat (length xs))"



text \<open>A loaded ten-second video: \<open>readyState = 4\<close> (\<open>HAVE_ENOUGH_DATA\<close>).\<close>

definition plainVideo :: video where
  "plainVideo = \<lparr> readyState = Some 4, duration = Some 10, currentTime = 0, muted = False,
     paused = False, fsim_done = False, mutedThrows = False, pauseThrows = False,
     currentTimeThrows = (\<lambda>x. False) \<rparr>"

text \<open>
  A video whose metadata has not arrived: \<open>readyState = 0\<close> (\<open>HAVE_NOTHING\<close>) and a
  duration of \<open>NaN\<close>.
\<close>

definition unloadedVideo :: video where
  "unloadedVideo = plainVideo\<lparr> readyState := Some 0, duration := None \<rparr>"

text \<open>A video that is not ready yet, of a known length of 100 seconds.\<close>

definition bufferingVideo :: video where
  "bufferingVideo = plainVideo\<lparr> readyState := Some 1, duration := Some 100 \<rparr>"

text \<open>
  A ready live stream (its duration is \<open>Infinity\<close>) whose \<open>currentTime\<close> refuses positions
  beyond \<open>10^15\<close> seconds, \<open>Number.MAX_VALUE\<close> among them.
\<close>

definition liveStream :: video where
  "liveStream = plainVideo\<lparr> duration := None, currentTimeThrows := (\<lambda>x. x > 10 ^ 15) \<rparr>"

text \<open>A loaded video on which both the write to \<open>muted\<close> and \<open>pause()\<close> raise.\<close>

definition lockedVideo :: video where
  "lockedVideo = plainVideo\<lparr> mutedThrows := True, pauseThrows := True \<rparr>"

text \<open>
  What the specification says of an instant attempt that raises: "increment
  \<open>readyFailure\<close> and fall through to the incremental strategy for this same item". This is
  \<open>processOneHybrid\<close> with that sentence in place of the source's control flow, for
  comparison with the source.
\<close>

definition processOneHybrid_fallthrough :: "vid \<Rightarrow> state \<Rightarrow> state" where
  "processOneHybrid_fallthrough v s0 =
     (let s = s0\<lparr> effects := effects s0 @ [Launch v] \<rparr>;
          start = clock s;
          tk = \<lparr> t_video = v, t_step = stepOf s, t_start = start \<rparr>
      in if isReady (videos s v) \<and> preferInstant s v
         then (if readyFailure (instantJump v s) = readyFailure s
               then markDone v start (instantJump v s)
               else resumeTask tk (instantJump v s))
         else resumeTask tk s)"

text \<open>How many times \<open>processOneHybrid\<close> has been invoked, in all and for one video.\<close>

definition launches :: "state \<Rightarrow> int" where
  "launches s = int (length (filter (\<lambda>e. case e of Launch _ \<Rightarrow> True | _ \<Rightarrow> False) (effects s)))"

definition launchesOf :: "vid \<Rightarrow> state \<Rightarrow> nat" where
  "launchesOf v s = length (filter (\<lambda>e. e = Launch v) (effects s))"

text \<open>A long recording, thirty billion hours, that is not ready yet.\<close>

definition longVideo :: video where
  "longVideo = plainVideo\<lparr> readyState := Some 1, duration := Some (3 * 10 ^ 12) \<rparr>"

text \<open>
  \<open>extends s s'\<close>: from \<open>s\<close> to \<open>s'\<close> nothing was marked done and the record of
  outgoing calls only grew. \<open>finishes v s s'\<close>: the common tail of \<open>processOneHybrid\<close> has
  run for \<open>v\<close> between \<open>s\<close> and \<open>s'\<close>: the video is marked done, \<open>doneCount\<close> is one
  higher, and the last two outgoing calls are the cleanup of \<open>v\<close> and the notification.
\<close>

definition extends :: "state \<Rightarrow> state \<Rightarrow> bool" where
  "extends s s' = (doneCount s' = doneCount s \<and> take (length (effects s)) (effects s') = effects s
     \<and> length (effects s) \<le> length (effects s'))"



section \<open>Properties\<close>

declare digits.simps [simp del]

lemmas conf_defs = concurrencyMin_def concurrencyMax_def concurrencyInit_def batchDelayMin_def
  batchDelayMax_def batchDelayInit_def preferInstantReadyState_def skipStepBase_def
  skipStepMax_def adaptWindowMs_def adaptTargetWorkMs_def or_else_def

lemmas op_defs = initialState_def adapt_avg_def readyRate_def adaptCoreParameters_def
  markDone_def instantJump_def loopPass_def resumeTask_def stepOf_def isReady_def
  preferInstant_def processOneHybrid_def scheduleTaskDrain_def drainTaskBatch_def settled_def
  enqueueNewVideos_def stopAll_def fire_def status_def

lemmas video_defs = plainVideo_def unloadedVideo_def bufferingVideo_def liveStream_def
  lockedVideo_def

subsection \<open>Auxiliary facts\<close>

lemma foldl_plus_sum_list: "foldl (\<lambda>a b. a + b) a xs = a + sum_list (xs :: rat list)"
  by (induction xs arbitrary: a) simp_all

lemma foldl_ms_sum_list: "foldl (\<lambda>a b. a + ms b) a xs = a + sum_list (map ms xs)"
  by (induction xs arbitrary: a) simp_all

lemma sum_list_filter_nonzero: "sum_list (filter (\<lambda>x. x \<noteq> 0) xs) = sum_list (xs :: rat list)"
  by (induction xs) simp_all

lemma concurrencyMax_bounds: "2 \<le> concurrencyMax hw \<and> concurrencyMax hw \<le> 8"
  by (simp add: concurrencyMax_def split: option.split)

lemma adapt_concurrency_range:
  "concurrencyMin \<le> concurrency (adaptCoreParameters hw s)
   \<and> concurrency (adaptCoreParameters hw s) \<le> concurrencyMax hw"
  using concurrencyMax_bounds [of hw]
  by (simp add: adaptCoreParameters_def Let_def concurrencyMin_def)






lemma run_append:
  "run hw (es1 @ es2) s = (case run hw es1 s of None \<Rightarrow> None | Some s' \<Rightarrow> run hw es2 s')"
  by (induction es1 arbitrary: s) (simp_all split: option.splits)

subsection \<open>What each operation leaves alone\<close>

lemma loopPass_frame:
  "processingCount (snd (loopPass tk s)) = processingCount s"
  "concurrency (snd (loopPass tk s)) = concurrency s"
  "running (snd (loopPass tk s)) = running s"
  "doneCount (snd (loopPass tk s)) = doneCount s"
  "queue (snd (loopPass tk s)) = queue s"
  "tasks (snd (loopPass tk s)) = tasks s"
  by (simp_all add: loopPass_def Let_def split: option.split)

lemma markDone_frame:
  "processingCount (markDone v st s) = processingCount s"
  "concurrency (markDone v st s) = concurrency s"
  "running (markDone v st s) = running s"
  "queue (markDone v st s) = queue s"
  by (simp_all add: markDone_def Let_def)

lemma instantJump_frame:
  "processingCount (instantJump v s) = processingCount s"
  "concurrency (instantJump v s) = concurrency s"
  "running (instantJump v s) = running s"
  "queue (instantJump v s) = queue s"
  by (simp_all add: instantJump_def Let_def)

lemma resumeTask_frame:
  "processingCount (resumeTask tk s) = processingCount s"
  "concurrency (resumeTask tk s) = concurrency s"
  "running (resumeTask tk s) = running s"
  "queue (resumeTask tk s) = queue s"
  by (simp_all add: resumeTask_def loopPass_frame markDone_frame)

lemma processOneHybrid_frame:
  "processingCount (processOneHybrid v s) = processingCount s"
  "concurrency (processOneHybrid v s) = concurrency s"
  "running (processOneHybrid v s) = running s"
  "queue (processOneHybrid v s) = queue s"
  by (simp_all add: processOneHybrid_def Let_def resumeTask_frame markDone_frame instantJump_frame)

lemma loopPass_launches: "launches (snd (loopPass tk s)) = launches s"
  by (simp add: loopPass_def launches_def Let_def split: option.split)

lemma markDone_launches: "launches (markDone v st s) = launches s"
  by (simp add: markDone_def launches_def Let_def)

lemma instantJump_launches: "launches (instantJump v s) = launches s"
  by (simp add: instantJump_def launches_def Let_def)

lemma launches_tasks_update: "launches (s\<lparr> tasks := ts \<rparr>) = launches s"
  by (simp add: launches_def)

lemma resumeTask_launches: "launches (resumeTask tk s) = launches s"
  by (simp add: resumeTask_def loopPass_launches markDone_launches launches_tasks_update)

lemma processOneHybrid_launches: "launches (processOneHybrid v s) = launches s + 1"
proof -
  have "launches (s\<lparr> effects := effects s @ [Launch v] \<rparr>) = launches s + 1"
    by (simp add: launches_def)
  then show ?thesis
    by (simp add: processOneHybrid_def Let_def resumeTask_launches markDone_launches
        instantJump_launches)
qed

lemma drainLoop_props:
  "concurrency (drainLoop q p s) = concurrency s
   \<and> running (drainLoop q p s) = running s
   \<and> processingCount s \<le> processingCount (drainLoop q p s)
   \<and> processingCount (drainLoop q p s) \<le> max (processingCount s) (concurrency s)
   \<and> launches (drainLoop q p s) - launches s = processingCount (drainLoop q p s) - processingCount s"
proof (induction q arbitrary: p s)
  case Nil
  show ?case by simp
next
  case (Cons v q)
  show ?case
  proof (cases "processingCount s < concurrency s \<and> p < concurrency s")
    case False
    then show ?thesis by auto
  next
    case go: True
    show ?thesis
    proof (cases "fsim_done (videos s v)")
      case True
      have l: "launches (s\<lparr> queue := q \<rparr>) = launches s" by (simp add: launches_def)
      show ?thesis
        using go True Cons.IH [of p "s\<lparr> queue := q \<rparr>"] l by simp
    next
      case False
      let ?s2 = "processOneHybrid v (s\<lparr> queue := q, processingCount := processingCount s + 1 \<rparr>)"
      have l: "launches ?s2 = launches s + 1"
        by (simp add: processOneHybrid_launches) (simp add: launches_def)
      have f: "processingCount ?s2 = processingCount s + 1" "concurrency ?s2 = concurrency s"
        "running ?s2 = running s"
        by (simp_all add: processOneHybrid_frame)
      have eq: "drainLoop (v # q) p s = drainLoop q (p + 1) ?s2"
        using go False by simp
      show ?thesis
        unfolding eq using Cons.IH [of "p + 1" ?s2] l f go by auto
    qed
  qed
qed

lemma adapt_frame:
  "processingCount (adaptCoreParameters hw s) = processingCount s"
  "running (adaptCoreParameters hw s) = running s"
  "launches (adaptCoreParameters hw s) = launches s"
  by (simp_all add: adaptCoreParameters_def Let_def launches_def)

lemma drainTaskBatch_props:
  "processingCount (drainTaskBatch hw w s) = processingCount (drainLoop (queue s) 0 s)"
  "launches (drainTaskBatch hw w s) = launches (drainLoop (queue s) 0 s)"
  "running (drainTaskBatch hw w s) = running s"
  "concurrencyMin \<le> concurrency (drainTaskBatch hw w s)"
  "concurrency (drainTaskBatch hw w s) \<le> concurrencyMax hw"
  using adapt_concurrency_range
  by (simp_all add: drainTaskBatch_def Let_def adapt_frame drainLoop_props) (simp add: launches_def)

lemma scheduleTaskDrain_frame:
  "processingCount (scheduleTaskDrain s) = processingCount s"
  "concurrency (scheduleTaskDrain s) = concurrency s"
  "running (scheduleTaskDrain s) = running s"
  by (simp_all add: scheduleTaskDrain_def)

lemma enqueueLoop_frame:
  "processingCount (enqueueLoop vs s) = processingCount s
   \<and> concurrency (enqueueLoop vs s) = concurrency s
   \<and> running (enqueueLoop vs s) = running s"
  by (induction vs arbitrary: s) simp_all

lemma enqueueNewVideos_frame:
  "processingCount (enqueueNewVideos vs s) = processingCount s"
  "concurrency (enqueueNewVideos vs s) = concurrency s"
  "running (enqueueNewVideos vs s) = running s"
  by (simp_all add: enqueueNewVideos_def Let_def scheduleTaskDrain_frame enqueueLoop_frame)

lemma settled_frame:
  "processingCount (settled s) = max 0 (processingCount s - 1)"
  "concurrency (settled s) = concurrency s"
  "running (settled s) = running s"
  by (simp_all add: settled_def Let_def scheduleTaskDrain_frame)

lemma fire_running: "fire hw e s = Some s' \<Longrightarrow> \<not> running s \<Longrightarrow> \<not> running s'"
  by (cases e)
    (auto simp add: fire_def drainTaskBatch_props settled_frame resumeTask_frame
      scheduleTaskDrain_frame stopAll_def status_def
      split: list.splits microtask.splits if_splits)

lemma run_running: "run hw es s = Some s' \<Longrightarrow> \<not> running s \<Longrightarrow> \<not> running s'"
proof (induction es arbitrary: s)
  case Nil
  then show ?case by simp
next
  case (Cons e es)
  then show ?case
    by (auto split: option.splits dest: fire_running)
qed

subsection \<open>No duplicate processing (C1)\<close>

text \<open>
  C1 says that \<open>enqueue\<close> is a no-op for a video that is pending, in flight or done, so
  that no video is launched twice. \<open>enqueueNewVideos\<close> tests \<open>__fsim_done\<close> and membership
  in \<open>state.queue\<close> only; a video that \<open>drainTaskBatch\<close> has shifted off the queue and
  whose \<open>processOneHybrid\<close> call is suspended in the stepping loop passes both tests.
  On a page with one video whose metadata has not arrived: discovery at boot, the drain,
  one timer tick of the stepping loop (any number of them leaves the call suspended), then
  the periodic poll 200 ms after boot and the drain it schedules. \<open>processOneHybrid\<close> has
  then been invoked twice for the same video, two calls for it are suspended, and
  \<open>processingCount\<close> is 2.
  On a page with one video of 100 seconds that is not ready: a mutation is observed while
  the first call waits at its \<open>await\<close>; the second call finishes the video, and the first
  one, resumed by its timer, finishes it again. The one video has been launched twice,
  \<open>doneCount\<close> is 2, and the \<open>ended\<close> event, the cleanup and the notification have each
  gone out twice.
\<close>

theorem C1_in_flight_video_relaunched:
  "map_option (\<lambda>s. (launchesOf 0 s, map t_video (tasks s), processingCount s, fsim_done (videos s 0)))
     (run (Some 4)
        [Discover [0], RunMicrotask 0, Elapse 4, TimerFires 0, Elapse 196, Discover [0], RunMicrotask 0]
        (initialState (\<lambda>_. unloadedVideo)))
   = Some (2, [0, 0], 2, False)
   \<and> map_option (\<lambda>s. (launchesOf 0 s, doneCount s, effects s))
     (run (Some 4)
        [Discover [0], RunMicrotask 0, Discover [0], RunMicrotask 0, RunMicrotask 0, Elapse 4,
         TimerFires 0, RunMicrotask 0]
        (initialState (\<lambda>_. bufferingVideo)))
   = Some (2, 2, [Launch 0, Launch 0, Dispatch 0 ''ended'', Cleanup 0, Toast 1,
                  Dispatch 0 ''ended'', Cleanup 0, Toast 2])"
  by (simp add: conf_defs op_defs video_defs launchesOf_def Let_def cong: let_weak_cong)

subsection \<open>The concurrency bound (C2)\<close>

lemma fire_bound:
  assumes "fire hw e s = Some s'"
    and "0 \<le> processingCount s" and "processingCount s \<le> max concurrencyInit (concurrencyMax hw)"
    and "concurrencyMin \<le> concurrency s" and "concurrency s \<le> max concurrencyInit (concurrencyMax hw)"
  shows "0 \<le> processingCount s' \<and> processingCount s' \<le> max concurrencyInit (concurrencyMax hw)
       \<and> concurrencyMin \<le> concurrency s' \<and> concurrency s' \<le> max concurrencyInit (concurrencyMax hw)"
proof (cases e)
  case (RunMicrotask w)
  show ?thesis
  proof (cases "microtasks s")
    case Nil
    with assms(1) RunMicrotask show ?thesis by (simp add: fire_def)
  next
    case (Cons j js)
    show ?thesis
    proof (cases j)
      case DrainJob
      let ?s0 = "s\<lparr> microtasks := js \<rparr>"
      have s': "s' = drainTaskBatch hw w ?s0"
        using assms(1) RunMicrotask Cons DrainJob by (simp add: fire_def split: if_splits)
      have d: "processingCount ?s0 \<le> processingCount (drainLoop (queue ?s0) 0 ?s0)"
        "processingCount (drainLoop (queue ?s0) 0 ?s0) \<le> max (processingCount ?s0) (concurrency ?s0)"
        using drainLoop_props [of "queue ?s0" 0 ?s0] by simp_all
      have c: "concurrencyMin \<le> concurrency s'" "concurrency s' \<le> concurrencyMax hw"
        unfolding s' by (rule drainTaskBatch_props)+
      have p: "processingCount s' = processingCount (drainLoop (queue ?s0) 0 ?s0)"
        unfolding s' by (rule drainTaskBatch_props)
      show ?thesis
        using d c p assms(2-5) by (simp add: max_def split: if_splits)
    next
      case SettleJob
      have s': "s' = settled (s\<lparr> microtasks := js \<rparr>)"
        using assms(1) RunMicrotask Cons SettleJob by (simp add: fire_def)
      show ?thesis
        unfolding s' using assms(2-5) by (simp add: settled_frame max_def split: if_splits)
    qed
  qed
next
  case (Discover vs)
  with assms show ?thesis
    by (auto simp add: fire_def enqueueNewVideos_frame split: if_splits)
next
  case (TimerFires i)
  with assms show ?thesis
    by (auto simp add: fire_def resumeTask_frame split: if_splits)
next
  case PeriodicDrain
  with assms show ?thesis
    by (auto simp add: fire_def scheduleTaskDrain_frame split: if_splits)
next
  case Stop
  with assms show ?thesis
    by (auto simp add: fire_def stopAll_def split: if_splits)
next
  case Status
  with assms show ?thesis
    by (auto simp add: fire_def status_def split: if_splits)
next
  case (Elapse dt)
  with assms show ?thesis
    by (auto simp add: fire_def split: if_splits)
qed

lemma run_bound:
  assumes "run hw es s = Some r"
    and "0 \<le> processingCount s" and "processingCount s \<le> max concurrencyInit (concurrencyMax hw)"
    and "concurrencyMin \<le> concurrency s" and "concurrency s \<le> max concurrencyInit (concurrencyMax hw)"
  shows "0 \<le> processingCount r \<and> processingCount r \<le> max concurrencyInit (concurrencyMax hw)
       \<and> concurrencyMin \<le> concurrency r \<and> concurrency r \<le> max concurrencyInit (concurrencyMax hw)"
  using assms
proof (induction es arbitrary: s)
  case Nil
  then show ?case by simp
next
  case (Cons e es)
  from Cons.prems(1) obtain s1 where f: "fire hw e s = Some s1" and r: "run hw es s1 = Some r"
    by (auto split: option.splits)
  from fire_bound [OF f Cons.prems(2-5)] Cons.IH [OF r] show ?case by blast
qed

text \<open>
  C2, as the claim states it: at every reachable state \<open>processingCount \<le> concurrency\<close>.
  On a host with four cores and a page with three videos whose metadata has not arrived,
  the first drain launches all three (\<open>concurrency\<close> is 3) and measures 30 ms of work; the
  balancer, called at the end of that drain, lowers \<open>concurrency\<close> to 2 while the three
  calls are suspended in their stepping loops.
\<close>

theorem C2_lowered_limit_counterexample:
  "map_option (\<lambda>s. (processingCount s, concurrency s))
     (run (Some 4) [Discover [0, 1, 2], RunMicrotask 30] (initialState (\<lambda>_. unloadedVideo)))
   = Some (3, 2)"
  by (simp add: conf_defs op_defs video_defs Let_def cong: let_weak_cong)

text \<open>
  C2, amended. One activation of the drainer launches at most
  \<open>max(0, concurrency - processingCount)\<close> videos, both read at its start, and raises
  \<open>processingCount\<close> by the number it launched; after every update by the balancer
  \<open>concurrency\<close> lies within \<open>[concurrencyMin, concurrencyMax]\<close>; and at every state
  reachable from boot, \<open>processingCount\<close> lies between 0 and the larger of
  \<open>concurrencyInit\<close> and \<open>concurrencyMax\<close>, as does \<open>concurrency\<close> from \<open>concurrencyMin\<close>.
  (\<open>processingCount \<le> concurrency\<close> itself is not kept: lowering the limit does not
  recall calls in flight.)
\<close>

theorem C2_launch_budget:
  "launches (drainTaskBatch hw work s) - launches s \<le> max 0 (concurrency s - processingCount s)
   \<and> processingCount (drainTaskBatch hw work s) - processingCount s
       = launches (drainTaskBatch hw work s) - launches s
   \<and> concurrencyMin \<le> concurrency (adaptCoreParameters hw s)
   \<and> concurrency (adaptCoreParameters hw s) \<le> concurrencyMax hw
   \<and> (run hw es (initialState vs) = Some r \<longrightarrow>
        0 \<le> processingCount r \<and> processingCount r \<le> max concurrencyInit (concurrencyMax hw)
        \<and> concurrencyMin \<le> concurrency r \<and> concurrency r \<le> max concurrencyInit (concurrencyMax hw))"
proof -
  have d: "processingCount s \<le> processingCount (drainLoop (queue s) 0 s)"
    "processingCount (drainLoop (queue s) 0 s) \<le> max (processingCount s) (concurrency s)"
    "launches (drainLoop (queue s) 0 s) - launches s
       = processingCount (drainLoop (queue s) 0 s) - processingCount s"
    using drainLoop_props [of "queue s" 0 s] by simp_all
  have a: "launches (drainTaskBatch hw work s) - launches s \<le> max 0 (concurrency s - processingCount s)"
    using d by (simp add: drainTaskBatch_props)
  have b: "processingCount (drainTaskBatch hw work s) - processingCount s
       = launches (drainTaskBatch hw work s) - launches s"
    using d by (simp add: drainTaskBatch_props)
  have i: "0 \<le> processingCount (initialState vs)"
    "processingCount (initialState vs) \<le> max concurrencyInit (concurrencyMax hw)"
    "concurrencyMin \<le> concurrency (initialState vs)"
    "concurrency (initialState vs) \<le> max concurrencyInit (concurrencyMax hw)"
    using concurrencyMax_bounds [of hw]
    by (simp_all add: initialState_def concurrencyInit_def concurrencyMin_def)
  show ?thesis
    using a b adapt_concurrency_range [of hw s] run_bound [OF _ i] by blast
qed

text \<open>The run above, on which \<open>processingCount\<close> reaches 3, within the bound 4.\<close>

theorem C2_launch_budget_witness:
  "map_option processingCount
     (run (Some 4) [Discover [0, 1, 2], RunMicrotask 30] (initialState (\<lambda>_. unloadedVideo))) = Some 3
   \<and> (3 :: int) \<le> max concurrencyInit (concurrencyMax (Some 4))"
proof -
  have e: "map_option (\<lambda>s. (processingCount s, concurrency s))
     (run (Some 4) [Discover [0, 1, 2], RunMicrotask 30] (initialState (\<lambda>_. unloadedVideo)))
     = Some (3, 2)"
    by (simp add: conf_defs op_defs video_defs Let_def cong: let_weak_cong)
  then obtain r where r: "run (Some 4) [Discover [0, 1, 2], RunMicrotask 30]
      (initialState (\<lambda>_. unloadedVideo)) = Some r" and p: "processingCount r = 3"
    by auto
  from C2_launch_budget [of "Some 4" 0 r "[Discover [0, 1, 2], RunMicrotask 30]" "\<lambda>_. unloadedVideo" r] r
  have "processingCount r \<le> max concurrencyInit (concurrencyMax (Some 4))" by blast
  with r p show ?thesis by simp
qed

subsection \<open>An instant attempt that raises (C3)\<close>

text \<open>
  C3 says that when the instant strategy's write raises, \<open>readyFailure\<close> is incremented
  and the same call goes on to the stepping strategy. In the source the stepping loop is
  the \<open>else\<close> branch of \<open>if (ready && preferInstant)\<close>, so after the \<open>catch\<close> of line 196
  (whose comment reads "fallback to skip if instant failed") control reaches line 227
  directly. For a ready live stream that refuses \<open>Number.MAX_VALUE\<close> as a position:
  the source counts the failure, leaves the position at 0, suspends nothing and marks the
  video done; with the fall-through of the specification the stream would have been
  stepped to \<open>10^12\<close> and the call suspended at its first \<open>await\<close>, not yet done.
  (An error of the \<open>muted\<close> write or of \<open>pause()\<close> is swallowed on the spot, lines
  185-186: on a video where both raise, the instant strategy goes through and counts a
  success.)
\<close>

theorem C3_seek_error_skips_stepping:
  "(let s = processOneHybrid 0 (initialState (\<lambda>_. liveStream));
        s' = processOneHybrid_fallthrough 0 (initialState (\<lambda>_. liveStream))
    in (readyFailure s, currentTime (videos s 0), map t_video (tasks s), fsim_done (videos s 0), effects s,
        readyFailure s', currentTime (videos s' 0), map t_video (tasks s'), fsim_done (videos s' 0)))
   = (1, 0, [], True, [Launch 0, Cleanup 0, Toast 1], 1, 10 ^ 12, [0], False)
   \<and> (let s = processOneHybrid 0 (initialState (\<lambda>_. lockedVideo))
      in (readyFailure s, readySuccess s, muted (videos s 0), paused (videos s 0),
          currentTime (videos s 0), fsim_done (videos s 0)))
     = (0, 1, False, False, 9999 / 1000, True)"
  by (simp add: conf_defs op_defs video_defs processOneHybrid_fallthrough_def MAX_VALUE_def Let_def
      cong: let_weak_cong)

subsection \<open>Termination of \<open>processOneHybrid\<close> (C4)\<close>





lemma extends_refl: "extends s s"
  by (simp add: extends_def)









subsection \<open>The balancer's average (C5)\<close>

text \<open>
  C5, as the claim states it: the balancer's \<open>avg\<close> is the arithmetic mean of the durations
  of all retained samples, zero-duration samples included. It is not: with a retained
  sample of duration 0 and one of duration 24 the balancer computes 24, while the mean of
  the two durations is 12. (A drain that takes less than the clock's resolution records
  exactly such a zero-duration sample.)
\<close>

theorem C5_zero_sample_counterexample:
  "adapt_avg [\<lparr> t = 0, ms = 0 \<rparr>, \<lparr> t = 0, ms = 24 \<rparr>] = 24
   \<and> mean_of (map ms [\<lparr> t = 0, ms = 0 \<rparr>, \<lparr> t = 0, ms = 24 \<rparr>]) = 12"
  by (simp add: adapt_avg_def mean_of_def)

text \<open>
  C5, amended: the balancer's \<open>avg\<close> is the arithmetic mean of the nonzero durations among
  the retained samples: the sum of all retained durations divided by the number of
  retained samples whose duration is not zero, and 0 when no retained sample has a nonzero
  duration.
\<close>

theorem C5_avg_is_mean_of_nonzero:
  "adapt_avg samples = mean_of (filter (\<lambda>x. x \<noteq> 0) (map ms samples))
   \<and> adapt_avg samples =
       (if filter (\<lambda>x. ms x \<noteq> 0) samples = [] then 0
        else sum_list (map ms samples) / of_nat (length (filter (\<lambda>x. ms x \<noteq> 0) samples)))"
proof -
  have a: "adapt_avg samples = mean_of (filter (\<lambda>x. x \<noteq> 0) (map ms samples))"
    by (simp add: adapt_avg_def mean_of_def Let_def foldl_plus_sum_list)
  have b: "filter (\<lambda>x. x \<noteq> 0) (map ms samples) = map ms (filter (\<lambda>x. ms x \<noteq> 0) samples)"
    by (simp add: filter_map comp_def)
  have c: "sum_list (filter (\<lambda>x. x \<noteq> 0) (map ms samples)) = sum_list (map ms samples)"
    by (rule sum_list_filter_nonzero)
  show ?thesis
    using a c by (simp add: mean_of_def b)
qed

subsection \<open>Hysteresis of the concurrency limit (C6)\<close>

text \<open>
  C6, as the claim states it, for every controller state: an average in the dead band
  \<open>(12, 21.6]\<close> leaves \<open>concurrency\<close> unchanged. The state the script boots with on a host
  that reports two cores has \<open>concurrency = concurrencyInit = 3\<close> above
  \<open>concurrencyMax = 2\<close>; with an average of 15 neither branch of lines 268-272 is taken,
  and the clamp of line 281 lowers \<open>concurrency\<close> to 2. The last conjunct is that very
  invocation in a run: the first drain, of one ready video, taking 15 ms.
\<close>

theorem C6_dead_band_counterexample:
  "adapt_avg [\<lparr> t = 15, ms = 15 \<rparr>] = 15
   \<and> adaptTargetWorkMs < 15 \<and> 15 \<le> adaptTargetWorkMs * (18 / 10)
   \<and> concurrency ((initialState (\<lambda>_. plainVideo))\<lparr> lastWorkSamples := [\<lparr> t = 15, ms = 15 \<rparr>] \<rparr>) = 3
   \<and> concurrency (adaptCoreParameters (Some 2)
        ((initialState (\<lambda>_. plainVideo))\<lparr> lastWorkSamples := [\<lparr> t = 15, ms = 15 \<rparr>] \<rparr>)) = 2
   \<and> map_option (\<lambda>s. (concurrency s, map ms (lastWorkSamples s)))
        (run (Some 2) [Discover [0], RunMicrotask 15] (initialState (\<lambda>_. plainVideo)))
       = Some (2, [0, 15])"
  by (simp add: conf_defs op_defs video_defs Let_def cong: let_weak_cong)

text \<open>
  C6, amended: for every controller state whose \<open>concurrency\<close> lies within
  \<open>[concurrencyMin, concurrencyMax]\<close> (as it does after any earlier invocation of the
  controller), an average strictly above \<open>targetWorkMs\<close> and at most \<open>targetWorkMs * 1.8\<close>
  leaves \<open>concurrency\<close> unchanged, an average strictly below \<open>targetWorkMs\<close> makes it
  \<open>min(concurrencyMax, concurrency + 1)\<close>, and an average strictly above
  \<open>targetWorkMs * 1.8\<close> makes it \<open>max(concurrencyMin, concurrency - 1)\<close>.
\<close>

theorem C6_hysteresis:
  assumes "concurrencyMin \<le> concurrency s" and "concurrency s \<le> concurrencyMax hw"
  shows "(adaptTargetWorkMs < adapt_avg (lastWorkSamples s)
            \<and> adapt_avg (lastWorkSamples s) \<le> adaptTargetWorkMs * (18 / 10)
          \<longrightarrow> concurrency (adaptCoreParameters hw s) = concurrency s)
       \<and> (adapt_avg (lastWorkSamples s) < adaptTargetWorkMs
          \<longrightarrow> concurrency (adaptCoreParameters hw s) = min (concurrencyMax hw) (concurrency s + 1))
       \<and> (adapt_avg (lastWorkSamples s) > adaptTargetWorkMs * (18 / 10)
          \<longrightarrow> concurrency (adaptCoreParameters hw s) = max concurrencyMin (concurrency s - 1))"
  using assms concurrencyMax_bounds [of hw]
  by (auto simp add: adaptCoreParameters_def Let_def concurrencyMin_def adaptTargetWorkMs_def)

text \<open>
  On a host with four cores, from \<open>concurrency = 3\<close>: an average of 15 keeps 3, an average
  of 5 gives 4, an average of 30 gives 2.
\<close>

theorem C6_hysteresis_witness:
  "concurrency (adaptCoreParameters (Some 4)
      ((initialState (\<lambda>_. plainVideo))\<lparr> lastWorkSamples := [\<lparr> t = 0, ms = 15 \<rparr>] \<rparr>)) = 3
   \<and> concurrency (adaptCoreParameters (Some 4)
      ((initialState (\<lambda>_. plainVideo))\<lparr> lastWorkSamples := [\<lparr> t = 0, ms = 5 \<rparr>] \<rparr>)) = 4
   \<and> concurrency (adaptCoreParameters (Some 4)
      ((initialState (\<lambda>_. plainVideo))\<lparr> lastWorkSamples := [\<lparr> t = 0, ms = 30 \<rparr>] \<rparr>)) = 2"
  using
    C6_hysteresis [of "(initialState (\<lambda>_. plainVideo))\<lparr> lastWorkSamples := [\<lparr> t = 0, ms = 15 \<rparr>] \<rparr>" "Some 4"]
    C6_hysteresis [of "(initialState (\<lambda>_. plainVideo))\<lparr> lastWorkSamples := [\<lparr> t = 0, ms = 5 \<rparr>] \<rparr>" "Some 4"]
    C6_hysteresis [of "(initialState (\<lambda>_. plainVideo))\<lparr> lastWorkSamples := [\<lparr> t = 0, ms = 30 \<rparr>] \<rparr>" "Some 4"]
  by (simp add: initialState_def adapt_avg_def concurrencyInit_def concurrencyMin_def
      concurrencyMax_def adaptTargetWorkMs_def)

subsection \<open>\<open>batchDelay\<close> and the discovery poll (C7)\<close>

lemma loopPass_delay:
  "loopPass tk (s\<lparr> batchDelay := b \<rparr>)
     = (fst (loopPass tk s), (snd (loopPass tk s))\<lparr> batchDelay := b \<rparr>)"
  by (simp add: loopPass_def Let_def split: option.split)

lemma markDone_delay: "markDone v st (s\<lparr> batchDelay := b \<rparr>) = (markDone v st s)\<lparr> batchDelay := b \<rparr>"
  by (simp add: markDone_def Let_def)

lemma instantJump_delay: "instantJump v (s\<lparr> batchDelay := b \<rparr>) = (instantJump v s)\<lparr> batchDelay := b \<rparr>"
  by (simp add: instantJump_def Let_def)

lemma resumeTask_delay: "resumeTask tk (s\<lparr> batchDelay := b \<rparr>) = (resumeTask tk s)\<lparr> batchDelay := b \<rparr>"
  by (simp add: resumeTask_def loopPass_delay markDone_delay)

lemma processOneHybrid_delay:
  "processOneHybrid v (s\<lparr> batchDelay := b \<rparr>) = (processOneHybrid v s)\<lparr> batchDelay := b \<rparr>"
proof -
  define s1 where "s1 = s\<lparr> effects := effects s @ [Launch v] \<rparr>"
  define tk where "tk = \<lparr> t_video = v, t_step = stepOf s1, t_start = clock s1 \<rparr>"
  define c where "c \<longleftrightarrow> isReady (videos s1 v) \<and> preferInstant s1 v"
  have l: "processOneHybrid v (s\<lparr> batchDelay := b \<rparr>) =
      (if c then markDone v (clock s1) (instantJump v (s1\<lparr> batchDelay := b \<rparr>))
       else resumeTask tk (s1\<lparr> batchDelay := b \<rparr>))"
    by (cases s) (simp add: processOneHybrid_def Let_def s1_def tk_def c_def preferInstant_def
        readyRate_def stepOf_def)
  have r: "processOneHybrid v s =
      (if c then markDone v (clock s1) (instantJump v s1) else resumeTask tk s1)"
    by (simp add: processOneHybrid_def Let_def s1_def tk_def c_def)
  show ?thesis
    unfolding l r by (simp add: resumeTask_delay markDone_delay instantJump_delay)
qed

lemma drainLoop_delay:
  "drainLoop q p (s\<lparr> batchDelay := b \<rparr>) = (drainLoop q p s)\<lparr> batchDelay := b \<rparr>"
proof (induction q arbitrary: p s)
  case Nil
  show ?case by simp
next
  case (Cons v q)
  define s1 where "s1 = s\<lparr> queue := q \<rparr>"
  define s2 where "s2 = s\<lparr> queue := q, processingCount := processingCount s + 1 \<rparr>"
  define c where "c \<longleftrightarrow> processingCount s < concurrency s \<and> p < concurrency s"
  have l: "drainLoop (v # q) p (s\<lparr> batchDelay := b \<rparr>) =
      (if c then (if fsim_done (videos s v) then drainLoop q p (s1\<lparr> batchDelay := b \<rparr>)
                  else drainLoop q (p + 1) (processOneHybrid v (s2\<lparr> batchDelay := b \<rparr>)))
       else s\<lparr> batchDelay := b \<rparr>)"
    by (cases s) (simp add: s1_def s2_def c_def Let_def)
  have r: "drainLoop (v # q) p s =
      (if c then (if fsim_done (videos s v) then drainLoop q p s1
                  else drainLoop q (p + 1) (processOneHybrid v s2))
       else s)"
    by (simp add: s1_def s2_def c_def Let_def)
  show ?case
    unfolding l r by (simp add: Cons.IH processOneHybrid_delay)
qed

lemma scheduleTaskDrain_delay:
  "scheduleTaskDrain (s\<lparr> batchDelay := b \<rparr>) = (scheduleTaskDrain s)\<lparr> batchDelay := b \<rparr>"
  by (simp add: scheduleTaskDrain_def)

lemma enqueueLoop_delay:
  "enqueueLoop vs (s\<lparr> batchDelay := b \<rparr>) = (enqueueLoop vs s)\<lparr> batchDelay := b \<rparr>"
proof (induction vs arbitrary: s)
  case Nil
  show ?case by simp
next
  case (Cons v vs)
  define s1 where "s1 = s\<lparr> queue := queue s @ [v] \<rparr>"
  have l: "enqueueLoop (v # vs) (s\<lparr> batchDelay := b \<rparr>) =
      (if fsim_done (videos s v) then enqueueLoop vs (s\<lparr> batchDelay := b \<rparr>)
       else if v \<notin> set (queue s) then enqueueLoop vs (s1\<lparr> batchDelay := b \<rparr>)
       else enqueueLoop vs (s\<lparr> batchDelay := b \<rparr>))"
    by (cases s) (simp add: s1_def)
  have r: "enqueueLoop (v # vs) s =
      (if fsim_done (videos s v) then enqueueLoop vs s
       else if v \<notin> set (queue s) then enqueueLoop vs s1
       else enqueueLoop vs s)"
    by (simp add: s1_def)
  show ?case
    unfolding l r by (simp add: Cons.IH)
qed

lemma enqueueNewVideos_delay:
  "enqueueNewVideos vs (s\<lparr> batchDelay := b \<rparr>) = (enqueueNewVideos vs s)\<lparr> batchDelay := b \<rparr>"
proof -
  define s1 where "s1 = enqueueLoop vs s"
  have "enqueueNewVideos vs (s\<lparr> batchDelay := b \<rparr>) =
      (let s2 = (s1\<lparr> batchDelay := b \<rparr>)\<lparr> seenCount := max (seenCount s1)
                   (int (length (queue s1)) + processingCount s1 + doneCount s1) \<rparr>
       in if length (queue s2) > 0 then scheduleTaskDrain s2 else s2)"
    by (simp add: enqueueNewVideos_def enqueueLoop_delay s1_def Let_def)
  moreover have "enqueueNewVideos vs s =
      (let s2 = s1\<lparr> seenCount := max (seenCount s1)
                   (int (length (queue s1)) + processingCount s1 + doneCount s1) \<rparr>
       in if length (queue s2) > 0 then scheduleTaskDrain s2 else s2)"
    by (simp add: enqueueNewVideos_def s1_def Let_def)
  ultimately show ?thesis
    by (cases s1) (simp add: Let_def scheduleTaskDrain_def)
qed

lemma settled_delay: "settled (s\<lparr> batchDelay := b \<rparr>) = (settled s)\<lparr> batchDelay := b \<rparr>"
  by (simp add: settled_def Let_def scheduleTaskDrain_def)

lemma stopAll_delay: "stopAll (s\<lparr> batchDelay := b \<rparr>) = (stopAll s)\<lparr> batchDelay := b \<rparr>"
  by (simp add: stopAll_def)

lemma adapt_delay:
  "\<exists>b'. adaptCoreParameters hw (s\<lparr> batchDelay := b \<rparr>) = (adaptCoreParameters hw s)\<lparr> batchDelay := b' \<rparr>"
  by (rule exI [of _ "batchDelay (adaptCoreParameters hw (s\<lparr> batchDelay := b \<rparr>))"])
    (simp add: adaptCoreParameters_def Let_def readyRate_def)

lemma drainTaskBatch_delay:
  "\<exists>b'. drainTaskBatch hw w (s\<lparr> batchDelay := b \<rparr>) = (drainTaskBatch hw w s)\<lparr> batchDelay := b' \<rparr>"
proof -
  define s1 where "s1 = drainLoop (queue s) 0 s"
  define s3 where "s3 = s1\<lparr> taskScheduled := False, clock := clock s + w,
      lastWorkSamples := filter (\<lambda>x. t x \<ge> clock s + w - adaptWindowMs)
        (lastWorkSamples s1 @ [\<lparr> t = clock s + w, ms = max 0 (clock s + w - clock s) \<rparr>]) \<rparr>"
  have l: "drainTaskBatch hw w (s\<lparr> batchDelay := b \<rparr>) = adaptCoreParameters hw (s3\<lparr> batchDelay := b \<rparr>)"
    unfolding s3_def by (cases s1) (simp add: drainTaskBatch_def Let_def drainLoop_delay s1_def)
  have r: "drainTaskBatch hw w s = adaptCoreParameters hw s3"
    by (simp add: drainTaskBatch_def Let_def s1_def s3_def)
  show ?thesis
    unfolding l r by (rule adapt_delay)
qed

lemma fire_delay:
  "\<exists>b'. fire hw e (s\<lparr> batchDelay := b \<rparr>) = map_option (\<lambda>x. x\<lparr> batchDelay := b' \<rparr>) (fire hw e s)"
proof (cases e)
  case (RunMicrotask w)
  show ?thesis
  proof (cases "microtasks s")
    case Nil
    with RunMicrotask show ?thesis by (simp add: fire_def)
  next
    case (Cons j js)
    have u: "s\<lparr> batchDelay := b, microtasks := js \<rparr> = (s\<lparr> microtasks := js \<rparr>)\<lparr> batchDelay := b \<rparr>"
      by simp
    show ?thesis
    proof (cases j)
      case DrainJob
      from drainTaskBatch_delay [where hw = hw and w = w and s = "s\<lparr> microtasks := js \<rparr>" and b = b]
      obtain b' where
        "drainTaskBatch hw w ((s\<lparr> microtasks := js \<rparr>)\<lparr> batchDelay := b \<rparr>)
          = (drainTaskBatch hw w (s\<lparr> microtasks := js \<rparr>))\<lparr> batchDelay := b' \<rparr>" by blast
      with RunMicrotask Cons DrainJob show ?thesis
        by (intro exI [of _ b']) (simp add: fire_def u del: state.update_convs)
    next
      case SettleJob
      with RunMicrotask Cons show ?thesis
        by (intro exI [of _ b]) (simp add: fire_def u settled_delay del: state.update_convs)
    qed
  qed
next
  case (Discover vs)
  then show ?thesis
    by (intro exI [of _ b]) (simp add: fire_def enqueueNewVideos_delay)
next
  case (TimerFires i)
  have u: "s\<lparr> batchDelay := b, tasks := take i (tasks s) @ drop (Suc i) (tasks s) \<rparr>
      = (s\<lparr> tasks := take i (tasks s) @ drop (Suc i) (tasks s) \<rparr>)\<lparr> batchDelay := b \<rparr>"
    by simp
  from TimerFires show ?thesis
    by (intro exI [of _ b]) (simp add: fire_def u resumeTask_delay del: state.update_convs)
next
  case PeriodicDrain
  then show ?thesis
    by (intro exI [of _ b]) (simp add: fire_def scheduleTaskDrain_delay)
next
  case Stop
  then show ?thesis
    by (intro exI [of _ b]) (simp add: fire_def stopAll_delay)
next
  case Status
  then show ?thesis
    by (intro exI [of _ b]) (simp add: fire_def status_def)
next
  case (Elapse dt)
  then show ?thesis
    by (intro exI [of _ b]) (simp add: fire_def)
qed

lemma run_delay:
  "\<exists>b'. run hw es (s\<lparr> batchDelay := b \<rparr>) = map_option (\<lambda>x. x\<lparr> batchDelay := b' \<rparr>) (run hw es s)"
proof (induction es arbitrary: s b)
  case Nil
  show ?case by (intro exI [of _ b]) simp
next
  case (Cons e es)
  from fire_delay [where hw = hw and e = e and s = s and b = b] obtain b1 where
    f: "fire hw e (s\<lparr> batchDelay := b \<rparr>) = map_option (\<lambda>x. x\<lparr> batchDelay := b1 \<rparr>) (fire hw e s)"
    by blast
  show ?case
  proof (cases "fire hw e s")
    case None
    with f show ?thesis by simp
  next
    case (Some s1)
    from Cons.IH [where s = s1 and b = b1] obtain b2 where
      "run hw es (s1\<lparr> batchDelay := b1 \<rparr>) = map_option (\<lambda>x. x\<lparr> batchDelay := b2 \<rparr>) (run hw es s1)"
      by blast
    with f Some show ?thesis by (intro exI [of _ b2]) simp
  qed
qed

text \<open>
  C7, as the claim states it: the discovery poll fires at an interval that reflects the
  current \<open>batchDelay\<close>. The balancer moves \<open>batchDelay\<close> to 180 after a quiet drain and to
  300 after one that took 30 ms; the interval handed to \<open>setInterval\<close> in line 352 is 200
  in either case.
\<close>

theorem C7_poll_interval_counterexample:
  "batchDelay (adaptCoreParameters (Some 4) (initialState (\<lambda>_. plainVideo))) = 180
   \<and> batchDelay (adaptCoreParameters (Some 4)
        ((initialState (\<lambda>_. plainVideo))\<lparr> lastWorkSamples := [\<lparr> t = 30, ms = 30 \<rparr>] \<rparr>)) = 300
   \<and> periodicEnqInterval = 200"
  by (simp add: adapt_avg_def adaptCoreParameters_def initialState_def adaptTargetWorkMs_def
      batchDelayInit_def batchDelayMin_def batchDelayMax_def or_else_def periodicEnqInterval_def Let_def)

text \<open>
  C7, amended. The balancer maintains \<open>batchDelay\<close>, and nothing consumes it: the
  discovery poll's interval is the constant \<open>max(200, batchDelayInit) = 200\<close> fixed at
  boot, and a different \<open>batchDelay\<close> changes no run of the scheduler in anything but
  \<open>batchDelay\<close> itself, nor what \<open>status()\<close> reports.
\<close>

theorem C7_batchDelay_unused:
  "periodicEnqInterval = 200
   \<and> (\<exists>b'. run hw es (s\<lparr> batchDelay := b \<rparr>)
             = map_option (\<lambda>x. x\<lparr> batchDelay := b' \<rparr>) (run hw es s))
   \<and> fst (status (s\<lparr> batchDelay := b \<rparr>)) = fst (status s)"
  using run_delay [where hw = hw and es = es and s = s and b = b]
  by (simp add: periodicEnqInterval_def batchDelayInit_def status_def)

subsection \<open>\<open>status()\<close> (C8, C10)\<close>

text \<open>
  C8: \<open>status()\<close> returns the snapshot \<open>{running, concurrency, queueLength, processing, done,
  seen, avgWorkMs}\<close> read off the state, and leaves the state, every field of it, as it
  was.
\<close>

theorem C8_status_pure:
  "snd (status s) = s
   \<and> fst (status s) =
       \<lparr> st_running = running s, st_concurrency = concurrency s,
         st_queueLength = length (queue s), st_processing = processingCount s,
         st_done = doneCount s, st_seen = seenCount s,
         st_avgWorkMs =
           (if lastWorkSamples s = [] then JSNumber 0
            else JSString (toFixed2 (mean_of (map ms (lastWorkSamples s))))) \<rparr>"
  by (simp add: status_def mean_of_def foldl_ms_sum_list)



subsection \<open>\<open>stop()\<close> during the stepping loop (C9)\<close>

text \<open>
  C9. \<open>stopAll\<close> clears \<open>state.running\<close>, and nothing sets it again. When a call suspended
  in the stepping loop is resumed with \<open>state.running\<close> false, the loop test of line 206
  fails before any step is taken: the call goes straight to the common tail, which marks
  the video done, increments \<open>doneCount\<close> and calls the cleanup (and the notification),
  with the video's position left where the last step put it.
\<close>

theorem C9_stop_marks_done:
  "\<not> running (stopAll s)
   \<and> (run hw es (stopAll s) = Some r \<longrightarrow> \<not> running r)
   \<and> (\<not> running r \<longrightarrow>
        \<not> fst (loopPass tk r)
        \<and> resumeTask tk r = markDone (t_video tk) (t_start tk) r
        \<and> fsim_done (videos (resumeTask tk r) (t_video tk))
        \<and> doneCount (resumeTask tk r) = doneCount r + 1
        \<and> effects (resumeTask tk r) = effects r @ [Cleanup (t_video tk), Toast (doneCount r + 1)]
        \<and> currentTime (videos (resumeTask tk r) (t_video tk)) = currentTime (videos r (t_video tk)))"
proof -
  have a: "\<not> running (stopAll s)" by (simp add: stopAll_def)
  have b: "run hw es (stopAll s) = Some r \<longrightarrow> \<not> running r"
    using run_running [of hw es "stopAll s" r] a by blast
  have c: "\<not> running r \<longrightarrow>
        \<not> fst (loopPass tk r)
        \<and> resumeTask tk r = markDone (t_video tk) (t_start tk) r
        \<and> fsim_done (videos (resumeTask tk r) (t_video tk))
        \<and> doneCount (resumeTask tk r) = doneCount r + 1
        \<and> effects (resumeTask tk r) = effects r @ [Cleanup (t_video tk), Toast (doneCount r + 1)]
        \<and> currentTime (videos (resumeTask tk r) (t_video tk)) = currentTime (videos r (t_video tk))"
  proof
    assume nr: "\<not> running r"
    then have lp: "loopPass tk r = (False, r)" by (simp add: loopPass_def)
    then have rt: "resumeTask tk r = markDone (t_video tk) (t_start tk) r"
      by (simp add: resumeTask_def)
    show "\<not> fst (loopPass tk r)
        \<and> resumeTask tk r = markDone (t_video tk) (t_start tk) r
        \<and> fsim_done (videos (resumeTask tk r) (t_video tk))
        \<and> doneCount (resumeTask tk r) = doneCount r + 1
        \<and> effects (resumeTask tk r) = effects r @ [Cleanup (t_video tk), Toast (doneCount r + 1)]
        \<and> currentTime (videos (resumeTask tk r) (t_video tk)) = currentTime (videos r (t_video tk))"
      unfolding rt using lp by (simp add: markDone_def Let_def)
  qed
  from a b c show ?thesis by blast
qed

text \<open>
  A recording of \<open>3 * 10^12\<close> seconds is stepped once, to \<open>10^12\<close>; \<open>stop()\<close> arrives
  during the \<open>await\<close>; when the timer fires the video is marked done at position \<open>10^12\<close>.
\<close>

theorem C9_stop_marks_done_witness:
  "map_option (\<lambda>s. (running s, fsim_done (videos s 0), doneCount s, currentTime (videos s 0),
        duration (videos s 0), effects s, map t_video (tasks s)))
     (run (Some 4) [Discover [0], RunMicrotask 0, Stop, TimerFires 0] (initialState (\<lambda>_. longVideo)))
   = Some (False, True, 1, 10 ^ 12, Some (3 * 10 ^ 12), [Launch 0, Cleanup 0, Toast 1], [])"
proof -
  have e: "map_option (\<lambda>s. (running s, tasks s, microtasks s, doneCount s, effects s,
        currentTime (videos s 0), duration (videos s 0)))
      (run (Some 4) [Discover [0], RunMicrotask 0] (initialState (\<lambda>_. longVideo)))
    = Some (True, [\<lparr> t_video = 0, t_step = 10 ^ 12, t_start = 0 \<rparr>], [], 0, [Launch 0], 10 ^ 12,
        Some (3 * 10 ^ 12))"
    by (simp add: conf_defs op_defs video_defs longVideo_def Let_def cong: let_weak_cong)
  then obtain s where s: "run (Some 4) [Discover [0], RunMicrotask 0] (initialState (\<lambda>_. longVideo)) = Some s"
    and t: "(running s, tasks s, microtasks s, doneCount s, effects s,
        currentTime (videos s 0), duration (videos s 0))
      = (True, [\<lparr> t_video = 0, t_step = 10 ^ 12, t_start = 0 \<rparr>], [], 0, [Launch 0], 10 ^ 12,
        Some (3 * 10 ^ 12))"
    unfolding map_option_eq_Some by blast
  from t have f: "running s" "tasks s = [\<lparr> t_video = 0, t_step = 10 ^ 12, t_start = 0 \<rparr>]" "microtasks s = []"
      "doneCount s = 0" "effects s = [Launch 0]" "currentTime (videos s 0) = 10 ^ 12"
      "duration (videos s 0) = Some (3 * 10 ^ 12)"
    by simp_all
  let ?tk = "\<lparr> t_video = 0, t_step = 10 ^ 12, t_start = 0 \<rparr>"
  let ?r = "(stopAll s)\<lparr> tasks := [] \<rparr>"
  have nr: "\<not> running ?r" by (simp add: stopAll_def)
  have l: "[Discover [0], RunMicrotask 0, Stop, TimerFires 0]
      = [Discover [0], RunMicrotask 0] @ [Stop, TimerFires 0]"
    by simp
  have tl: "run (Some 4) [Stop, TimerFires 0] s = Some (resumeTask ?tk ?r)"
    using f(2,3) by (simp add: fire_def stopAll_def)
  have run4: "run (Some 4) [Discover [0], RunMicrotask 0, Stop, TimerFires 0]
      (initialState (\<lambda>_. longVideo)) = Some (resumeTask ?tk ?r)"
    unfolding l run_append s using tl by simp
  have eq: "resumeTask ?tk ?r = markDone 0 0 ?r"
    using C9_stop_marks_done [of s "Some 4" "[]" ?r ?tk, THEN conjunct2, THEN conjunct2,
        THEN mp, OF nr, THEN conjunct2, THEN conjunct1]
    by simp
  show ?thesis
    unfolding run4 eq using f by (simp add: stopAll_def markDone_def Let_def)
qed

end
